theory Spec2Isabelle
  imports Main "HOL-Library.Sublist"
begin

section \<open>The frontend: \<open>App.tsx\<close>\<close>

text \<open>
  The React component \<open>App\<close> keeps eight pieces of state (\<open>useState\<close>). Its handlers are
  \<open>async\<close> functions with a single \<open>await\<close> each. A handler is modelled in two parts, as
  JavaScript runs it: the synchronous part, which runs when the handler is called and ends by
  issuing a request (the awaited call), and the continuation, which runs when the request is
  answered, on the state of that later moment. What a continuation reads from its closure (the
  handler's argument, the \<open>watchPath\<close> of the render that created the handler) travels with
  the request. State updates are \<open>setX(v)\<close> (a plain assignment) or \<open>setLogs(prev => ...)\<close>
  (a function of the current value), so applying them to the current state is exact.

  A JavaScript string is a sequence of UTF-16 code units. The model has the code units below
  256 (Latin-1), one \<open>char\<close> each, and \<open>trim\<close> and \<open>toLowerCase\<close> are what JavaScript computes
  on them; code units from 256 on are not represented. The value of a rejected promise is modelled by its string rendering, which
  is all the code uses of it (\<open>${e}\<close>). The clock (\<open>new Date().toLocaleTimeString()\<close>) is a
  parameter of every function that writes an audit entry.
\<close>

subsection \<open>Data\<close>

record DriveInfo =
  name :: string
  mount_point :: string
  total_space :: nat
  available_space :: nat

record LogEntry =
  timestamp :: string
  message :: string

record Config =
  ignored_extensions :: "string list"

record App =
  drives :: "DriveInfo list"
  watchPath :: string
  selectedDrive :: "string option"
  logs :: "LogEntry list"
  isWatching :: bool
  isSettingsOpen :: bool
  config :: Config
  newExt :: string

definition initial :: App where
  "initial = \<lparr>drives = [], watchPath = [], selectedDrive = None, logs = [],
     isWatching = False, isSettingsOpen = False,
     config = \<lparr>ignored_extensions = []\<rparr>, newExt = []\<rparr>"

text \<open>
  A request is a call the component is waiting for: the five backend commands reached through
  \<open>invoke\<close>, the directory dialog (\<open>open\<close>) and \<open>homeDir\<close>. The payload is the argument of the
  call; the continuations read nothing else from their closures.
\<close>

datatype request =
    Get_drives
  | Get_config
  | Save_config Config
  | Start_watching string
  | Set_backup_path string
  | Open_dialog
  | Home_dir

text \<open>The answer to a request: the promise rejects, or resolves with a value.\<close>

datatype reply =
    Rejected string
  | Resolved
  | Resolved_drives "DriveInfo list"
  | Resolved_config Config
  | Resolved_selection "string option"
  | Resolved_path string

subsection \<open>String helpers of \<open>addExtension\<close>\<close>

text \<open>
  \<open>trim()\<close> strips white space and line terminators from both ends: below 256 these are
  \<open>U+0009\<close> to \<open>U+000D\<close>, the space \<open>U+0020\<close> and the no-break space \<open>U+00A0\<close>.
\<close>

definition is_space :: "char \<Rightarrow> bool" where
  "is_space c = (let n = (of_char c :: nat) in (9 \<le> n \<and> n \<le> 13) \<or> n = 32 \<or> n = 160)"

definition trim :: "string \<Rightarrow> string" where
  "trim s = rev (dropWhile is_space (rev (dropWhile is_space s)))"

text \<open>
  \<open>toLowerCase()\<close> maps each upper-case letter to its lower-case one: below 256 the
  upper-case letters are \<open>A\<close> to \<open>Z\<close> and \<open>U+00C0\<close> to \<open>U+00DE\<close> without the
  multiplication sign \<open>U+00D7\<close>, and the lower-case letter is 32 further.
\<close>

definition is_upper :: "char \<Rightarrow> bool" where
  "is_upper c =
     (let n = (of_char c :: nat)
      in (65 \<le> n \<and> n \<le> 90) \<or> (192 \<le> n \<and> n \<le> 214) \<or> (216 \<le> n \<and> n \<le> 222))"

definition to_lower :: "char \<Rightarrow> char" where
  "to_lower c = (if is_upper c then char_of ((of_char c :: nat) + 32) else c)"

definition toLowerCase :: "string \<Rightarrow> string" where
  "toLowerCase s = map to_lower s"

text \<open>\<open>.replace(/^\./, "")\<close>: the regular expression matches one dot at the start.\<close>

fun remove_leading_dot :: "string \<Rightarrow> string" where
  "remove_leading_dot [] = []"
| "remove_leading_dot (c # cs) = (if c = CHR ''.'' then cs else c # cs)"

definition clean_ext :: "string \<Rightarrow> string" where
  "clean_ext s = remove_leading_dot (toLowerCase (trim s))"

definition has_leading_dot :: "string \<Rightarrow> bool" where
  "has_leading_dot s = (case s of [] \<Rightarrow> False | c # _ \<Rightarrow> c = CHR ''.'')"

definition lowercase :: "string \<Rightarrow> bool" where
  "lowercase s = (list_ex is_upper s = False)"

subsection \<open>Handlers\<close>

definition addLog :: "string \<Rightarrow> string \<Rightarrow> App \<Rightarrow> App" where
  "addLog time msg s = s\<lparr>logs := \<lparr>timestamp = time, message = msg\<rparr> # logs s\<rparr>"

text \<open>\<open>loadConfig\<close>: \<open>await invoke("get_config")\<close>, then \<open>setConfig(c)\<close> or an error entry.\<close>

definition loadConfig :: "App \<Rightarrow> App \<times> request list" where
  "loadConfig s = (s, [Get_config])"

definition loadConfig_then :: "string + Config \<Rightarrow> string \<Rightarrow> App \<Rightarrow> App" where
  "loadConfig_then r time s =
     (case r of
        Inr c \<Rightarrow> s\<lparr>config := c\<rparr>
      | Inl e \<Rightarrow> addLog time (''Error loading config: '' @ e) s)"

text \<open>\<open>saveConfig\<close>: \<open>await invoke("save_config", {config: newConfig})\<close>, then
  \<open>setConfig(newConfig)\<close> and an entry, or an error entry.\<close>

definition saveConfig :: "Config \<Rightarrow> App \<Rightarrow> App \<times> request list" where
  "saveConfig newConfig s = (s, [Save_config newConfig])"

definition saveConfig_then :: "Config \<Rightarrow> string + unit \<Rightarrow> string \<Rightarrow> App \<Rightarrow> App" where
  "saveConfig_then newConfig r time s =
     (case r of
        Inr _ \<Rightarrow> addLog time ''Settings updated.'' (s\<lparr>config := newConfig\<rparr>)
      | Inl e \<Rightarrow> addLog time (''Error saving settings: '' @ e) s)"

definition addExtension :: "App \<Rightarrow> App \<times> request list" where
  "addExtension s =
     (if newExt s = [] then (s, [])
      else let clean = clean_ext (newExt s) in
        if clean \<in> set (ignored_extensions (config s)) then (s, [])
        else
          let updated = (config s)\<lparr>ignored_extensions := ignored_extensions (config s) @ [clean]\<rparr>;
              (s', rs) = saveConfig updated s
          in (s'\<lparr>newExt := []\<rparr>, rs))"

definition removeExtension :: "string \<Rightarrow> App \<Rightarrow> App \<times> request list" where
  "removeExtension ext s =
     (let updated = (config s)\<lparr>ignored_extensions :=
                       filter (\<lambda>e. e \<noteq> ext) (ignored_extensions (config s))\<rparr>
      in saveConfig updated s)"

definition handleStartWatch :: "App \<Rightarrow> App \<times> request list" where
  "handleStartWatch s = (s, [Start_watching (watchPath s)])"

definition handleStartWatch_then :: "string \<Rightarrow> string + unit \<Rightarrow> string \<Rightarrow> App \<Rightarrow> App" where
  "handleStartWatch_then path r time s =
     (case r of
        Inr _ \<Rightarrow> addLog time (''Started watching: '' @ path) (s\<lparr>isWatching := True\<rparr>)
      | Inl e \<Rightarrow> addLog time (''Error: '' @ e) s)"

definition handleSelectDrive :: "string \<Rightarrow> App \<Rightarrow> App \<times> request list" where
  "handleSelectDrive path s = (s\<lparr>selectedDrive := Some path\<rparr>, [Set_backup_path path])"

definition handleSelectDrive_then :: "string \<Rightarrow> string + unit \<Rightarrow> string \<Rightarrow> App \<Rightarrow> App" where
  "handleSelectDrive_then path r time s =
     (case r of
        Inr _ \<Rightarrow> addLog time (''Backup target set to: '' @ path) s
      | Inl e \<Rightarrow> addLog time (''Error setting backup: '' @ e) s)"

text \<open>\<open>handleBrowse\<close>: the dialog gives a path or \<open>null\<close>; \<open>if (selected)\<close> also drops the
  empty string.\<close>

definition handleBrowse :: "App \<Rightarrow> App \<times> request list" where
  "handleBrowse s = (s, [Open_dialog])"

definition handleBrowse_then :: "string + string option \<Rightarrow> string \<Rightarrow> App \<Rightarrow> App" where
  "handleBrowse_then r time s =
     (case r of
        Inr None \<Rightarrow> s
      | Inr (Some selected) \<Rightarrow> (if selected = [] then s else s\<lparr>watchPath := selected\<rparr>)
      | Inl e \<Rightarrow> addLog time (''Error picking directory: '' @ e) s)"

definition handleTrackAll :: "App \<Rightarrow> App \<times> request list" where
  "handleTrackAll s = (s, [Home_dir])"

definition handleTrackAll_then :: "string + string \<Rightarrow> string \<Rightarrow> App \<Rightarrow> App" where
  "handleTrackAll_then r time s =
     (case r of
        Inr home \<Rightarrow> addLog time ''Set target to User Home Directory'' (s\<lparr>watchPath := home\<rparr>)
      | Inl e \<Rightarrow> addLog time (''Error getting home dir: '' @ e) s)"

subsection \<open>What is rendered\<close>

text \<open>
  The \<open>disabled\<close> attributes of the JSX. \<open>!watchPath\<close> holds for the empty string,
  \<open>!selectedDrive\<close> for \<open>null\<close> and for the empty string.
\<close>

definition pathInput_disabled :: "App \<Rightarrow> bool" where
  "pathInput_disabled s = isWatching s"

definition browse_disabled :: "App \<Rightarrow> bool" where
  "browse_disabled s = isWatching s"

definition trackAll_disabled :: "App \<Rightarrow> bool" where
  "trackAll_disabled s = isWatching s"

definition start_disabled :: "App \<Rightarrow> bool" where
  "start_disabled s =
     (isWatching s \<or> watchPath s = [] \<or>
      (case selectedDrive s of None \<Rightarrow> True | Some d \<Rightarrow> d = []))"

text \<open>
  The events a user can raise: one per control with a handler. \<open>Click_drive i\<close> is a click on
  the \<open>i\<close>-th drive of the list, \<open>Click_remove ext\<close> one on the cross of the tag \<open>ext\<close>,
  \<open>Submit_newExt\<close> the Add button or the Enter key in the extension field, \<open>Click_close\<close> the
  overlay or the cross of the settings modal.
\<close>

datatype ui_event =
    Change_watchPath string
  | Click_browse
  | Click_trackAll
  | Click_start
  | Click_drive nat
  | Click_settings
  | Click_close
  | Change_newExt string
  | Submit_newExt
  | Click_remove string

text \<open>A control raises its event when it is rendered and not disabled.\<close>

fun available :: "App \<Rightarrow> ui_event \<Rightarrow> bool" where
  "available s (Change_watchPath v) = (pathInput_disabled s = False)"
| "available s Click_browse = (browse_disabled s = False)"
| "available s Click_trackAll = (trackAll_disabled s = False)"
| "available s Click_start = (start_disabled s = False)"
| "available s (Click_drive i) = (i < length (drives s))"
| "available s Click_settings = True"
| "available s Click_close = isSettingsOpen s"
| "available s (Change_newExt v) = isSettingsOpen s"
| "available s Submit_newExt = isSettingsOpen s"
| "available s (Click_remove ext) =
     (isSettingsOpen s \<and> ext \<in> set (ignored_extensions (config s)))"

text \<open>The handler of each control, up to its \<open>await\<close>.\<close>

fun dispatch :: "ui_event \<Rightarrow> App \<Rightarrow> App \<times> request list" where
  "dispatch (Change_watchPath v) s = (s\<lparr>watchPath := v\<rparr>, [])"
| "dispatch Click_browse s = handleBrowse s"
| "dispatch Click_trackAll s = handleTrackAll s"
| "dispatch Click_start s = handleStartWatch s"
| "dispatch (Click_drive i) s = handleSelectDrive (mount_point (drives s ! i)) s"
| "dispatch Click_settings s = (s\<lparr>isSettingsOpen := True\<rparr>, [])"
| "dispatch Click_close s = (s\<lparr>isSettingsOpen := False\<rparr>, [])"
| "dispatch (Change_newExt v) s = (s\<lparr>newExt := v\<rparr>, [])"
| "dispatch Submit_newExt s = addExtension s"
| "dispatch (Click_remove ext) s = removeExtension ext s"

text \<open>
  The continuation of a request, run on its answer. The commands awaited for their effect only
  (\<open>save_config\<close>, \<open>start_watching\<close>, \<open>set_backup_path\<close>) continue on any resolved value.
  \<open>get_drives\<close> has no rejection handler (\<open>.then(setDrives)\<close>): a rejection changes nothing.
  An answer of a shape the call cannot give is not delivered (\<open>None\<close>).
\<close>

fun resume :: "request \<Rightarrow> reply \<Rightarrow> string \<Rightarrow> App \<Rightarrow> App option" where
  "resume Get_drives (Resolved_drives ds) time s = Some (s\<lparr>drives := ds\<rparr>)"
| "resume Get_drives (Rejected e) time s = Some s"
| "resume Get_config (Resolved_config c) time s = Some (loadConfig_then (Inr c) time s)"
| "resume Get_config (Rejected e) time s = Some (loadConfig_then (Inl e) time s)"
| "resume (Save_config c) (Rejected e) time s = Some (saveConfig_then c (Inl e) time s)"
| "resume (Save_config c) _ time s = Some (saveConfig_then c (Inr ()) time s)"
| "resume (Start_watching p) (Rejected e) time s = Some (handleStartWatch_then p (Inl e) time s)"
| "resume (Start_watching p) _ time s = Some (handleStartWatch_then p (Inr ()) time s)"
| "resume (Set_backup_path p) (Rejected e) time s = Some (handleSelectDrive_then p (Inl e) time s)"
| "resume (Set_backup_path p) _ time s = Some (handleSelectDrive_then p (Inr ()) time s)"
| "resume Open_dialog (Resolved_selection sel) time s = Some (handleBrowse_then (Inr sel) time s)"
| "resume Open_dialog (Rejected e) time s = Some (handleBrowse_then (Inl e) time s)"
| "resume Home_dir (Resolved_path home) time s = Some (handleTrackAll_then (Inr home) time s)"
| "resume Home_dir (Rejected e) time s = Some (handleTrackAll_then (Inl e) time s)"
| "resume _ _ time s = None"

subsection \<open>The component as a transition system\<close>

text \<open>
  A state of the running component is its React state and the requests it is waiting for.
  \<open>useEffect\<close> runs once after the first render: it calls \<open>get_drives\<close>, then \<open>loadConfig\<close>,
  and subscribes to the three backend notifications.
\<close>

type_synonym system = "App \<times> request list"

definition mounted :: system where
  "mounted = (initial, [Get_drives] @ snd (loadConfig initial))"

datatype event =
    UI ui_event
  | Answer nat reply
  | Drives_changed "DriveInfo list"
  | File_synced string
  | File_changed "string list"

fun digits :: "nat \<Rightarrow> string" where
  "digits n = (if n < 10 then [char_of (48 + n)] else digits (n div 10) @ [char_of (48 + n mod 10)])"

declare digits.simps [simp del]

definition without :: "nat \<Rightarrow> 'a list \<Rightarrow> 'a list" where
  "without i xs = take i xs @ drop (Suc i) xs"

text \<open>
  One step: a user event runs the synchronous part of its handler when the control is
  available; \<open>Answer i r\<close> answers the \<open>i\<close>-th outstanding request with \<open>r\<close> and runs its
  continuation; a backend notification runs its listener.
\<close>

fun step :: "string \<Rightarrow> event \<Rightarrow> system \<Rightarrow> system" where
  "step time (UI e) (s, rs) =
     (if available s e then (let (s', new) = dispatch e s in (s', rs @ new)) else (s, rs))"
| "step time (Answer i r) (s, rs) =
     (if i < length rs then
        (case resume (rs ! i) r time s of
           Some s' \<Rightarrow> (s', without i rs)
         | None \<Rightarrow> (s, rs))
      else (s, rs))"
| "step time (Drives_changed ds) (s, rs) =
     (addLog time ''External drives updated.'' (s\<lparr>drives := ds\<rparr>), rs)"
| "step time (File_synced p) (s, rs) = (addLog time (''Synced: '' @ p) s, rs)"
| "step time (File_changed ps) (s, rs) =
     (addLog time (''Detected changes: '' @ digits (length ps) @ '' files'') s, rs)"

fun run :: "(string \<times> event) list \<Rightarrow> system \<Rightarrow> system" where
  "run [] sys = sys"
| "run ((time, e) # es) sys = run es (step time e sys)"

text \<open>A request whose continuation can assign \<open>watchPath\<close>.\<close>

fun sets_watchPath :: "request \<Rightarrow> bool" where
  "sets_watchPath Open_dialog = True"
| "sets_watchPath Home_dir = True"
| "sets_watchPath _ = False"

section \<open>The core behind the commands\<close>

text \<open>
  The backend that answers \<open>start_watching\<close> and \<open>set_backup_path\<close> and copies the files is
  not among the source files; only its caller, \<open>App.tsx\<close>, is. The definitions of this section
  follow the specification of the core instead: the command \<open>start\<close> of the Session Controller
  (section 4.5), the Ignore Filter (section 4.1) and the Sync Engine (section 4.4).
\<close>

subsection \<open>Session Controller\<close>

datatype phase = Idle | Watching

record session =
  watch_target :: "string option"
  backup_target :: "string option"
  session_phase :: phase

datatype config_error = Invalid_watch_target | Backup_target_unset

text \<open>
  Modelled from the spec: the session state of the backend before any command, which is
  missing from the sources. \<open>SessionState: {watch_target?, backup_target?, phase}\<close>, with no
  target set and phase \<open>Idle\<close>.
\<close>

definition session0 :: session where
  "session0 = \<lparr>watch_target = None, backup_target = None, session_phase = Idle\<rparr>"

text \<open>
  Modelled from the spec: the command \<open>start\<close> of the Session Controller, which is missing
  from the sources. "\<open>start\<close>: fails if WatchTarget is not an existing readable directory, or
  if BackupTarget is unset. On success, begins Change Watcher subscription and transitions to
  Watching." Whether the path is an existing readable directory is the parameter \<open>readable\<close>.
\<close>

definition start_watching :: "bool \<Rightarrow> string \<Rightarrow> session \<Rightarrow> config_error + session" where
  "start_watching readable path ss =
     (if readable = False then Inl Invalid_watch_target
      else if backup_target ss = None then Inl Backup_target_unset
      else Inr (ss\<lparr>watch_target := Some path, session_phase := Watching\<rparr>))"

subsection \<open>Sync Engine\<close>

text \<open>
  A path is its list of components, a file its bytes and its modification time, and the file
  system a finite map from paths to files: the watched tree and the backup tree live in the
  same file system, and one may lie inside the other. Directories are the prefixes of the
  paths of files; creating the missing parents of a destination is therefore implicit.
\<close>

type_synonym path = "string list"

record file_entry =
  content :: string
  mtime :: nat

type_synonym filesystem = "path \<rightharpoonup> file_entry"

datatype status = Copied | SkippedUnchanged | SkippedIgnored | Failed string

type_synonym outcome = "path \<times> status"

text \<open>
  Modelled from the spec: rule 3 of the Ignore Filter, which is missing from the sources.
  "Path lies entirely inside the backup target itself".
\<close>

definition inside_backup :: "path \<Rightarrow> path \<Rightarrow> bool" where
  "inside_backup backup p = prefix backup p"

text \<open>
  Modelled from the spec: step 1 of the Sync Engine, which is missing from the sources.
  "Compute \<open>relative = path - WatchTarget\<close>; destination = \<open>BackupTarget / relative\<close>". The
  difference exists for a path under the watch target only.
\<close>

definition relative :: "path \<Rightarrow> path \<Rightarrow> path option" where
  "relative watch p = (if prefix watch p then Some (drop (length watch) p) else None)"

text \<open>
  Modelled from the spec: the destination of step 1 of the Sync Engine, which is missing from
  the sources. "destination = \<open>BackupTarget / relative\<close>".
\<close>

definition destination :: "path \<Rightarrow> path \<Rightarrow> path \<Rightarrow> path option" where
  "destination watch backup p = map_option (\<lambda>r. backup @ r) (relative watch p)"

text \<open>
  Modelled from the spec: the test of step 3 of the Sync Engine, which is missing from the
  sources. "If destination does not exist, or destination's modification time is older than
  source's, or sizes differ".
\<close>

definition needs_copy :: "file_entry \<Rightarrow> file_entry option \<Rightarrow> bool" where
  "needs_copy src dst =
     (case dst of
        None \<Rightarrow> True
      | Some d \<Rightarrow> mtime d < mtime src \<or> length (content d) \<noteq> length (content src))"

text \<open>
  Modelled from the spec: the algorithm of the Sync Engine for one path (section 4.4, steps 1
  to 5), which is missing from the sources. A source that no longer exists gives
  \<open>SkippedIgnored\<close> and no action. A copy writes the source's bytes and modification time at
  the destination and gives \<open>Copied\<close>; a file that needs no copy gives \<open>SkippedUnchanged\<close>.
  An I/O failure of the copy gives \<open>Failed\<close> with its reason, for that path only; \<open>io p\<close> is
  the failure the copy of \<open>p\<close> meets in this run, if any, and a failed copy leaves the file
  system as it was. The spec is silent on a path outside the watch target, for which step 1
  gives no destination: the model reports it as \<open>Failed\<close> and acts on nothing.
\<close>

definition sync_path ::
  "path \<Rightarrow> path \<Rightarrow> (path \<Rightarrow> string option) \<Rightarrow> filesystem \<Rightarrow> path \<Rightarrow> outcome \<times> filesystem" where
  "sync_path watch backup io fs p =
     (case fs p of
        None \<Rightarrow> ((p, SkippedIgnored), fs)
      | Some src \<Rightarrow>
          (case destination watch backup p of
             None \<Rightarrow> ((p, Failed ''path is outside the watch target''), fs)
           | Some d \<Rightarrow>
               if needs_copy src (fs d) then
                 (case io p of
                    Some reason \<Rightarrow> ((p, Failed reason), fs)
                  | None \<Rightarrow> ((p, Copied), fs(d \<mapsto> src)))
               else ((p, SkippedUnchanged), fs)))"

text \<open>
  Modelled from the spec: the Sync Engine on a batch, which is missing from the sources. The
  paths are processed one after the other, each on the file system the previous ones left
  ("one failure never aborts the batch").
\<close>

fun sync_batch ::
  "path \<Rightarrow> path \<Rightarrow> (path \<Rightarrow> string option) \<Rightarrow> filesystem \<Rightarrow> path list \<Rightarrow> outcome list \<times> filesystem" where
  "sync_batch watch backup io fs [] = ([], fs)"
| "sync_batch watch backup io fs (p # ps) =
     (let (out, fs') = sync_path watch backup io fs p;
          (outs, fs'') = sync_batch watch backup io fs' ps
      in (out # outs, fs''))"

datatype report = Deferred "path list" | Outcomes "outcome list"

text \<open>
  Modelled from the spec: the entry of the Sync Engine, which is missing from the sources.
  "Before processing any batch, the engine re-validates that BackupTarget is still
  reachable/writable; if not, the entire batch is deferred (not dropped)". Whether the backup
  target is reachable is the parameter \<open>reachable\<close>.
\<close>

definition sync_engine ::
  "path \<Rightarrow> path \<Rightarrow> bool \<Rightarrow> (path \<Rightarrow> string option) \<Rightarrow> filesystem \<Rightarrow> path list \<Rightarrow> report \<times> filesystem" where
  "sync_engine watch backup reachable io fs batch =
     (if reachable then
        (let (outs, fs') = sync_batch watch backup io fs batch in (Outcomes outs, fs'))
      else (Deferred batch, fs))"

text \<open>
  Modelled from the spec: the Ignore Filter (section 4.1), which is missing from the sources.
  "Rules, applied in order, any match: ignore". Rules 1 and 2 depend on a noise list the spec
  does not give and on the configured extensions; they are the parameter \<open>other_rules\<close>.
  Rule 3 is \<open>inside_backup\<close>.
\<close>

definition should_ignore :: "(path \<Rightarrow> bool) \<Rightarrow> path \<Rightarrow> path \<Rightarrow> bool" where
  "should_ignore other_rules backup p = (other_rules p \<or> inside_backup backup p)"

text \<open>
  Modelled from the spec: what the Session Controller does with a ChangeBatch (section 4.5),
  which is missing from the sources. "On each ChangeBatch: filters via 4.1, invokes 4.4". The
  report is the engine's, on the paths that survive the filter.
\<close>

definition on_change_batch ::
  "(path \<Rightarrow> bool) \<Rightarrow> path \<Rightarrow> path \<Rightarrow> bool \<Rightarrow> (path \<Rightarrow> string option) \<Rightarrow> filesystem \<Rightarrow>
   path list \<Rightarrow> report \<times> filesystem" where
  "on_change_batch other_rules watch backup reachable io fs batch =
     sync_engine watch backup reachable io fs
       (filter (\<lambda>p. should_ignore other_rules backup p = False) batch)"

text \<open>The per-file outcomes of a report; a deferred batch reports none.\<close>

fun outcomes_of :: "report \<Rightarrow> outcome list" where
  "outcomes_of (Outcomes outs) = outs"
| "outcomes_of (Deferred batch) = []"

text \<open>
  A path is in sync when its source exists, it has a destination, and step 3 finds nothing to
  copy.
\<close>

definition in_sync :: "path \<Rightarrow> path \<Rightarrow> filesystem \<Rightarrow> path \<Rightarrow> bool" where
  "in_sync watch backup fs p =
     (case fs p of
        None \<Rightarrow> False
      | Some src \<Rightarrow>
          (case destination watch backup p of
             None \<Rightarrow> False
           | Some d \<Rightarrow> needs_copy src (fs d) = False))"

text \<open>Two environments of a run: no copy fails, or every copy fails on a full disk.\<close>

definition no_failure :: "path \<Rightarrow> string option" where
  "no_failure p = None"

definition disk_full :: "path \<Rightarrow> string option" where
  "disk_full p = Some ''disk full''"

text \<open>A filter whose rules 1 and 2 match nothing.\<close>

definition no_other_rule :: "path \<Rightarrow> bool" where
  "no_other_rule p = False"

section \<open>Properties of the frontend\<close>

lemmas frontend_defs =
  mounted_def initial_def loadConfig_def loadConfig_then_def saveConfig_def saveConfig_then_def
  addExtension_def removeExtension_def handleStartWatch_def handleStartWatch_then_def
  handleSelectDrive_def handleSelectDrive_then_def handleBrowse_def handleBrowse_then_def
  handleTrackAll_def handleTrackAll_then_def addLog_def without_def
  pathInput_disabled_def browse_disabled_def trackAll_disabled_def start_disabled_def

subsection \<open>The audit log\<close>

text \<open>
  Claim C8. \<open>addLog(msg)\<close> puts one new entry, the time and the message, in front of the log:
  the rest of the new log is the old log, entry for entry, and nothing else of the state
  changes.
\<close>

theorem addLog_prepends:
  "logs (addLog time msg s) = \<lparr>timestamp = time, message = msg\<rparr> # logs s \<and>
   hd (logs (addLog time msg s)) = \<lparr>timestamp = time, message = msg\<rparr> \<and>
   tl (logs (addLog time msg s)) = logs s \<and>
   length (logs (addLog time msg s)) = Suc (length (logs s)) \<and>
   addLog time msg s = s\<lparr>logs := logs (addLog time msg s)\<rparr>"
  by (simp add: addLog_def)

subsection \<open>Normalising an extension\<close>

lemma to_lower_not_upper: "is_upper (to_lower c) = False"
  by (auto simp: to_lower_def is_upper_def Let_def)

lemma lowercase_toLowerCase: "lowercase (toLowerCase s)"
  by (simp add: lowercase_def toLowerCase_def list_ex_iff to_lower_not_upper)

lemma lowercase_remove_leading_dot: "lowercase s \<Longrightarrow> lowercase (remove_leading_dot s)"
  by (cases s) (auto simp: lowercase_def)

lemma clean_ext_lowercase: "lowercase (clean_ext s)"
  by (simp add: clean_ext_def lowercase_remove_leading_dot lowercase_toLowerCase)

lemma to_lower_dot: "(to_lower c = CHR ''.'') = (c = CHR ''.'')"
proof (cases "is_upper c")
  case True
  then have n: "65 \<le> (of_char c :: nat) \<and> (of_char c :: nat) \<le> 222"
    by (auto simp: is_upper_def Let_def)
  have "(of_char (to_lower c) :: nat) = (of_char c + 32) mod 256"
    using True by (simp add: to_lower_def)
  then have "(of_char (to_lower c) :: nat) \<noteq> 46" using n by simp
  then have "to_lower c \<noteq> CHR ''.''" by auto
  moreover have "c \<noteq> CHR ''.''" using n by auto
  ultimately show ?thesis by simp
next
  case False
  then show ?thesis by (simp add: to_lower_def)
qed

text \<open>The no-break space is trimmed and an accented capital is lowered, as in JavaScript.\<close>

lemma clean_ext_latin1:
  "clean_ext [CHR 0xA0, CHR ''M'', CHR 0xC9, CHR '' ''] = [CHR ''m'', CHR 0xE9]"
  by code_simp

text \<open>
  The cleaned extension is lower case for every input, and it starts with a dot exactly when
  the trimmed input starts with two.
\<close>

lemma clean_ext_leading_dot:
  "has_leading_dot (clean_ext s) = (take 2 (trim s) = ''..'')"
proof (cases "trim s")
  case Nil
  then show ?thesis by (simp add: clean_ext_def toLowerCase_def has_leading_dot_def)
next
  case (Cons c cs)
  then show ?thesis
    by (cases cs) (auto simp: clean_ext_def toLowerCase_def has_leading_dot_def to_lower_dot)
qed

text \<open>
  Claim C2. The extension that \<open>addExtension\<close> inserts is lower case and has no leading dot.
  The code removes one leading dot only: for the input \<open>..mp4\<close> it sends, and on success
  stores, the extension \<open>.mp4\<close>, which has a leading dot.
\<close>

theorem addExtension_keeps_second_dot:
  "snd (addExtension (initial\<lparr>newExt := ''..mp4''\<rparr>)) =
     [Save_config \<lparr>ignored_extensions = [''.mp4'']\<rparr>] \<and>
   config (fst (run
      [(''t1'', UI Click_settings),
       (''t2'', UI (Change_newExt ''..mp4'')),
       (''t3'', UI Submit_newExt),
       (''t4'', Answer 2 Resolved)] mounted)) = \<lparr>ignored_extensions = [''.mp4'']\<rparr> \<and>
   has_leading_dot ''.mp4''"
  by (simp add: frontend_defs clean_ext_def trim_def is_space_def toLowerCase_def to_lower_def
      is_upper_def has_leading_dot_def)

subsection \<open>Persisting the configuration\<close>

text \<open>
  Claim C3. Every mutation of \<open>ignored_extensions\<close> issues exactly one \<open>save_config\<close> call
  with the updated configuration: \<open>addExtension\<close> issues one, carrying the old list with the
  cleaned extension appended, when the field is not empty and the extension is new, and none
  otherwise; \<open>removeExtension\<close> issues one, carrying the old list without the extension.
\<close>

theorem mutation_persists_once:
  "snd (addExtension s) =
     (if newExt s = [] \<or> clean_ext (newExt s) \<in> set (ignored_extensions (config s)) then []
      else [Save_config ((config s)\<lparr>ignored_extensions :=
              ignored_extensions (config s) @ [clean_ext (newExt s)]\<rparr>)]) \<and>
   snd (removeExtension ext s) =
     [Save_config ((config s)\<lparr>ignored_extensions :=
        filter (\<lambda>e. e \<noteq> ext) (ignored_extensions (config s))\<rparr>)]"
  by (simp add: addExtension_def removeExtension_def saveConfig_def Let_def)

text \<open>
  Claim C9. \<open>saveConfig\<close> changes nothing before the answer of \<open>save_config\<close>. When the call
  resolves, the in-memory configuration becomes the new one and the entry
  \<open>Settings updated.\<close> is written; when it rejects, the configuration stays as it is and an
  error entry is written.
\<close>

theorem saveConfig_atomic:
  "saveConfig newConfig s = (s, [Save_config newConfig]) \<and>
   config (saveConfig_then newConfig r time s) = (if isl r then config s else newConfig) \<and>
   logs (saveConfig_then newConfig r time s) =
     \<lparr>timestamp = time,
      message = (case r of Inl e \<Rightarrow> ''Error saving settings: '' @ e
                 | Inr _ \<Rightarrow> ''Settings updated.'')\<rparr>
     # logs s"
  by (simp add: saveConfig_def saveConfig_then_def addLog_def split: sum.splits)

subsection \<open>Starting to watch\<close>

text \<open>
  Claim C6. \<open>handleStartWatch\<close> changes nothing before the answer of \<open>start_watching\<close>. When
  the call resolves, \<open>isWatching\<close> becomes true and the entry \<open>Started watching\<close> is written;
  when it rejects, \<open>isWatching\<close> keeps its value (false, when the button could be clicked) and
  an error entry is written instead.
\<close>

theorem handleStartWatch_outcome:
  "handleStartWatch s = (s, [Start_watching (watchPath s)]) \<and>
   isWatching (handleStartWatch_then path r time s) = (if isl r then isWatching s else True) \<and>
   logs (handleStartWatch_then path r time s) =
     \<lparr>timestamp = time,
      message = (case r of Inl e \<Rightarrow> ''Error: '' @ e
                 | Inr _ \<Rightarrow> ''Started watching: '' @ path)\<rparr>
     # logs s"
  by (simp add: handleStartWatch_def handleStartWatch_then_def addLog_def split: sum.splits)

subsection \<open>Selecting a drive\<close>

text \<open>
  Claim C10. \<open>handleSelectDrive\<close> sets \<open>selectedDrive\<close> to the clicked mount point before it
  awaits \<open>set_backup_path\<close>: the request is issued from a state in which the drive is selected
  already. Whatever the answer, also a rejection, the drive stays selected afterwards, and the
  Start button then depends on \<open>isWatching\<close> and \<open>watchPath\<close> only. A rejection adds the entry
  \<open>Error setting backup\<close>. The mount point is not the empty string, which JavaScript takes
  for no selection.
\<close>

theorem selectDrive_before_await:
  assumes "path \<noteq> []"
  shows "handleSelectDrive path s = (s\<lparr>selectedDrive := Some path\<rparr>, [Set_backup_path path]) \<and>
     selectedDrive (handleSelectDrive_then path r time (fst (handleSelectDrive path s))) =
       Some path \<and>
     logs (handleSelectDrive_then path r time (fst (handleSelectDrive path s))) =
       \<lparr>timestamp = time,
        message = (case r of Inl e \<Rightarrow> ''Error setting backup: '' @ e
                   | Inr _ \<Rightarrow> ''Backup target set to: '' @ path)\<rparr> # logs s \<and>
     start_disabled (handleSelectDrive_then path r time (fst (handleSelectDrive path s))) =
       (isWatching s \<or> watchPath s = [])"
  using assms
  by (simp add: handleSelectDrive_def handleSelectDrive_then_def addLog_def start_disabled_def
      split: sum.splits)

theorem selectDrive_before_await_witness:
  "''/Volumes/USB'' \<noteq> [] \<and>
   selectedDrive (handleSelectDrive_then ''/Volumes/USB'' (Inl ''no such volume'') ''12:00:00''
     (fst (handleSelectDrive ''/Volumes/USB'' (initial\<lparr>watchPath := ''/data''\<rparr>)))) =
     Some ''/Volumes/USB'' \<and>
   start_disabled (handleSelectDrive_then ''/Volumes/USB'' (Inl ''no such volume'') ''12:00:00''
     (fst (handleSelectDrive ''/Volumes/USB'' (initial\<lparr>watchPath := ''/data''\<rparr>)))) = False"
  using selectDrive_before_await [where path = "''/Volumes/USB''" and r = "Inl ''no such volume''"
     and time = "''12:00:00''" and s = "initial\<lparr>watchPath := ''/data''\<rparr>"]
  by (simp add: initial_def handleSelectDrive_def)

subsection \<open>The Start button\<close>

text \<open>
  The Start Monitoring button is disabled exactly when the session is watching, or the watch
  path is empty, or no drive is selected (\<open>selectedDrive\<close> is \<open>null\<close> or empty); a click on
  the disabled button does nothing, a click on the enabled one issues \<open>start_watching\<close> with
  the watch path.
\<close>

lemma start_gate:
  "start_disabled s =
     (isWatching s \<or> watchPath s = [] \<or> selectedDrive s = None \<or> selectedDrive s = Some []) \<and>
   step time (UI Click_start) (s, rs) =
     (if start_disabled s then (s, rs) else (s, rs @ [Start_watching (watchPath s)]))"
  by (simp add: start_disabled_def handleStartWatch_def split: option.splits)

text \<open>In a session whose backup target was never set, \<open>start\<close> fails on the unset target.\<close>

lemma start_fails_without_backup_target:
  "start_watching True path session0 = Inl Backup_target_unset"
  by (simp add: start_watching_def session0_def)

text \<open>
  Claim C5. The Start Monitoring button is disabled whenever the session is watching, or the
  watch path is empty, or no backup drive has been selected, so that \<open>start_watching\<close> cannot
  be sent from the user interface while no backup target is set. The code keeps the button
  disabled in those three cases, but it takes the click on a drive for the selection: the user
  types a watch path and clicks a drive, \<open>set_backup_path\<close> is rejected, the audit log says so,
  and yet the drive stays selected, the Start button is enabled, and a click sends
  \<open>start_watching\<close>, with no backup target ever accepted.
\<close>

theorem start_reaches_unset_backup:
  "selectedDrive (fst (run
      [(''t1'', UI (Change_watchPath ''/data'')),
       (''t2'', Answer 0 (Resolved_drives [\<lparr>name = ''USB'', mount_point = ''/Volumes/USB'',
                   total_space = 1000, available_space = 500\<rparr>])),
       (''t3'', UI (Click_drive 0)),
       (''t4'', Answer 1 (Rejected ''volume is read-only''))]
      mounted)) = Some ''/Volumes/USB'' \<and>
   logs (fst (run
      [(''t1'', UI (Change_watchPath ''/data'')),
       (''t2'', Answer 0 (Resolved_drives [\<lparr>name = ''USB'', mount_point = ''/Volumes/USB'',
                   total_space = 1000, available_space = 500\<rparr>])),
       (''t3'', UI (Click_drive 0)),
       (''t4'', Answer 1 (Rejected ''volume is read-only''))]
      mounted)) =
     [\<lparr>timestamp = ''t4'', message = ''Error setting backup: volume is read-only''\<rparr>] \<and>
   start_disabled (fst (run
      [(''t1'', UI (Change_watchPath ''/data'')),
       (''t2'', Answer 0 (Resolved_drives [\<lparr>name = ''USB'', mount_point = ''/Volumes/USB'',
                   total_space = 1000, available_space = 500\<rparr>])),
       (''t3'', UI (Click_drive 0)),
       (''t4'', Answer 1 (Rejected ''volume is read-only''))]
      mounted)) = False \<and>
   snd (run
      [(''t1'', UI (Change_watchPath ''/data'')),
       (''t2'', Answer 0 (Resolved_drives [\<lparr>name = ''USB'', mount_point = ''/Volumes/USB'',
                   total_space = 1000, available_space = 500\<rparr>])),
       (''t3'', UI (Click_drive 0)),
       (''t4'', Answer 1 (Rejected ''volume is read-only'')),
       (''t5'', UI Click_start)]
      mounted) = [Get_config, Start_watching ''/data'']"
  by (simp add: frontend_defs)

subsection \<open>The watch path while watching\<close>

lemma dispatch_watching:
  assumes "isWatching s" and "available s e"
  shows "watchPath (fst (dispatch e s)) = watchPath s \<and> isWatching (fst (dispatch e s)) \<and>
         list_ex sets_watchPath (snd (dispatch e s)) = False"
  using assms
  by (cases e)
     (simp_all add: pathInput_disabled_def browse_disabled_def trackAll_disabled_def
        start_disabled_def handleSelectDrive_def addExtension_def removeExtension_def
        saveConfig_def Let_def)

lemma resume_watching:
  assumes "isWatching s" and "sets_watchPath q = False" and "resume q r time s = Some s'"
  shows "watchPath s' = watchPath s \<and> isWatching s'"
  using assms
  by (cases q; cases r)
     (auto simp: loadConfig_then_def saveConfig_then_def handleStartWatch_then_def
        handleSelectDrive_then_def addLog_def)

lemma list_ex_without:
  "list_ex P xs = False \<Longrightarrow> list_ex P (without i xs) = False"
  by (auto simp: without_def list_ex_iff dest: in_set_takeD in_set_dropD)

lemma step_watching:
  assumes "isWatching s" and "list_ex sets_watchPath rs = False"
  shows "watchPath (fst (step time ev (s, rs))) = watchPath s \<and>
         isWatching (fst (step time ev (s, rs))) \<and>
         list_ex sets_watchPath (snd (step time ev (s, rs))) = False"
proof (cases ev)
  case (UI e)
  then show ?thesis
    using assms dispatch_watching [of s e]
    by (cases "available s e") (simp_all add: split_beta)
next
  case (Answer i r)
  show ?thesis
  proof (cases "i < length rs")
    case True
    then have q: "sets_watchPath (rs ! i) = False"
      using assms(2) by (auto simp: list_ex_iff)
    show ?thesis
    proof (cases "resume (rs ! i) r time s")
      case None
      then show ?thesis using Answer True assms by simp
    next
      case (Some s')
      then show ?thesis
        using Answer True assms resume_watching [OF assms(1) q Some] list_ex_without [OF assms(2)]
        by simp
    qed
  next
    case False
    then show ?thesis using Answer assms by simp
  qed
qed (use assms in \<open>simp_all add: addLog_def\<close>)

lemma run_watching:
  "isWatching s \<Longrightarrow> list_ex sets_watchPath rs = False \<Longrightarrow>
   watchPath (fst (run es (s, rs))) = watchPath s \<and> isWatching (fst (run es (s, rs))) \<and>
   list_ex sets_watchPath (snd (run es (s, rs))) = False"
proof (induction es arbitrary: s rs)
  case Nil
  then show ?case by simp
next
  case (Cons a es)
  obtain time ev where a: "a = (time, ev)" by (cases a)
  obtain s1 rs1 where st: "step time ev (s, rs) = (s1, rs1)" by (cases "step time ev (s, rs)")
  have "watchPath s1 = watchPath s \<and> isWatching s1 \<and> list_ex sets_watchPath rs1 = False"
    using step_watching [OF Cons.prems, of time ev] st by simp
  then show ?case
    using Cons.IH [of s1 rs1] a st by simp
qed

text \<open>
  What the \<open>disabled\<close> flags achieve. While the session is watching, the path input, the
  Browse button and the Track User Home button are disabled: no user event changes
  \<open>watchPath\<close> or starts a call that will. When no directory dialog and no home directory call
  is outstanding either, \<open>watchPath\<close> keeps its value and the session stays watching through
  every further sequence of user events, answers and backend notifications.
\<close>

lemma watching_freezes_path:
  assumes "isWatching s"
  shows "pathInput_disabled s \<and> browse_disabled s \<and> trackAll_disabled s \<and>
         watchPath (fst (step time (UI e) (s, rs))) = watchPath s \<and>
         filter sets_watchPath (snd (step time (UI e) (s, rs))) = filter sets_watchPath rs \<and>
         (if list_ex sets_watchPath rs then True
          else watchPath (fst (run es (s, rs))) = watchPath s \<and> isWatching (fst (run es (s, rs))))"
proof -
  have a: "pathInput_disabled s \<and> browse_disabled s \<and> trackAll_disabled s"
    using assms by (simp add: pathInput_disabled_def browse_disabled_def trackAll_disabled_def)
  have b: "watchPath (fst (step time (UI e) (s, rs))) = watchPath s \<and>
           filter sets_watchPath (snd (step time (UI e) (s, rs))) = filter sets_watchPath rs"
    using dispatch_watching [OF assms, of e]
    by (cases "available s e") (simp_all add: split_beta list_ex_iff filter_empty_conv)
  have c: "list_ex sets_watchPath rs = False \<Longrightarrow>
           watchPath (fst (run es (s, rs))) = watchPath s \<and> isWatching (fst (run es (s, rs)))"
    using run_watching [OF assms] by simp
  show ?thesis using a b c by simp
qed

text \<open>
  A session that started watching \<open>/data\<close>, with only \<open>get_config\<close> outstanding: clicks on
  the disabled controls, the late configuration and a sync notification leave the path alone.
\<close>

lemma watching_freezes_path_example:
  "isWatching (fst (run
      [(''t1'', UI (Change_watchPath ''/data'')),
       (''t2'', Answer 0 (Resolved_drives [\<lparr>name = ''USB'', mount_point = ''/Volumes/USB'',
                   total_space = 1000, available_space = 500\<rparr>])),
       (''t3'', UI (Click_drive 0)),
       (''t4'', Answer 1 Resolved),
       (''t5'', UI Click_start),
       (''t6'', Answer 1 Resolved)] mounted)) \<and>
   watchPath (fst (run
      [(''t7'', UI Click_trackAll),
       (''t8'', UI (Change_watchPath ''/other'')),
       (''t9'', Answer 0 (Resolved_config \<lparr>ignored_extensions = [''log'']\<rparr>)),
       (''t10'', File_synced ''/data/a.txt'')]
      (run
      [(''t1'', UI (Change_watchPath ''/data'')),
       (''t2'', Answer 0 (Resolved_drives [\<lparr>name = ''USB'', mount_point = ''/Volumes/USB'',
                   total_space = 1000, available_space = 500\<rparr>])),
       (''t3'', UI (Click_drive 0)),
       (''t4'', Answer 1 Resolved),
       (''t5'', UI Click_start),
       (''t6'', Answer 1 Resolved)] mounted))) = ''/data''"
proof -
  let ?tr = "[(''t1'', UI (Change_watchPath ''/data'')),
       (''t2'', Answer 0 (Resolved_drives [\<lparr>name = ''USB'', mount_point = ''/Volumes/USB'',
                   total_space = 1000, available_space = 500\<rparr>])),
       (''t3'', UI (Click_drive 0)),
       (''t4'', Answer 1 Resolved),
       (''t5'', UI Click_start),
       (''t6'', Answer 1 Resolved)]"
  let ?es = "[(''t7'', UI Click_trackAll),
       (''t8'', UI (Change_watchPath ''/other'')),
       (''t9'', Answer 0 (Resolved_config \<lparr>ignored_extensions = [''log'']\<rparr>)),
       (''t10'', File_synced ''/data/a.txt'')]"
  define S where "S = run ?tr mounted"
  have w: "isWatching (fst S)"
    by (simp add: S_def frontend_defs)
  have rs: "list_ex sets_watchPath (snd S) = False"
    by (simp add: S_def frontend_defs)
  have p: "watchPath (fst S) = ''/data''"
    by (simp add: S_def frontend_defs)
  have "watchPath (fst (run ?es (fst S, snd S))) = watchPath (fst S)"
    using watching_freezes_path [OF w, where rs = "snd S" and es = ?es and time = "''t7''"
        and e = Click_trackAll] rs
    by (simp only: if_False)
  then have "watchPath (fst (run ?es S)) = ''/data''"
    using p by simp
  then show ?thesis using w unfolding S_def by (rule conjI [rotated])
qed

text \<open>
  Claim C4. While the session is watching, the watch path cannot be changed through any
  control of the user interface: \<open>watchPath\<close> is set only while idle. The code disables the
  three controls, but it lets a call that was started while idle finish after watching began.
  The user clicks Track User Home and then Start Monitoring; \<open>start_watching\<close> resolves
  first, so the session is watching \<open>/data\<close>; then \<open>homeDir\<close> resolves and its continuation
  sets \<open>watchPath\<close> to the home directory, while \<open>isWatching\<close> is true.
\<close>

theorem pending_homeDir_sets_path_while_watching:
 "isWatching (fst (run [(''t1'', UI (Change_watchPath ''/data'')),
       (''t2'', Answer 0 (Resolved_drives [\<lparr>name = ''USB'', mount_point = ''/Volumes/USB'',
                   total_space = 1000, available_space = 500\<rparr>])),
       (''t3'', UI (Click_drive 0)),
       (''t4'', Answer 1 Resolved),
       (''t5'', UI Click_trackAll),
       (''t6'', UI Click_start),
       (''t7'', Answer 2 Resolved)] mounted)) \<and>
  watchPath (fst (run [(''t1'', UI (Change_watchPath ''/data'')),
       (''t2'', Answer 0 (Resolved_drives [\<lparr>name = ''USB'', mount_point = ''/Volumes/USB'',
                   total_space = 1000, available_space = 500\<rparr>])),
       (''t3'', UI (Click_drive 0)),
       (''t4'', Answer 1 Resolved),
       (''t5'', UI Click_trackAll),
       (''t6'', UI Click_start),
       (''t7'', Answer 2 Resolved)] mounted)) = ''/data'' \<and>
  watchPath (fst (step ''t8'' (Answer 1 (Resolved_path ''/home/u''))
     (run [(''t1'', UI (Change_watchPath ''/data'')),
       (''t2'', Answer 0 (Resolved_drives [\<lparr>name = ''USB'', mount_point = ''/Volumes/USB'',
                   total_space = 1000, available_space = 500\<rparr>])),
       (''t3'', UI (Click_drive 0)),
       (''t4'', Answer 1 Resolved),
       (''t5'', UI Click_trackAll),
       (''t6'', UI Click_start),
       (''t7'', Answer 2 Resolved)] mounted))) = ''/home/u''"
  by (simp add: frontend_defs)


section \<open>Properties of the Sync Engine\<close>

subsection \<open>What a run can write\<close>

lemma destination_Some:
  "destination w b p = Some d \<Longrightarrow> \<exists>r. p = w @ r \<and> d = b @ r"
  by (auto simp: destination_def relative_def prefix_def split: if_splits)

lemma destination_inj:
  "destination w b p = Some d \<Longrightarrow> destination w b q = Some d \<Longrightarrow> p = q"
  by (auto dest!: destination_Some)

lemma destination_inside:
  "destination w b p = Some d \<Longrightarrow> inside_backup b d"
  by (auto dest!: destination_Some simp: inside_backup_def)

lemma sync_path_writes:
  "snd (sync_path w b io fs p) x \<noteq> fs x \<Longrightarrow>
   destination w b p = Some x \<and> fs p \<noteq> None \<and> snd (fst (sync_path w b io fs p)) = Copied"
  by (auto simp: sync_path_def split: option.splits if_splits)

lemma sync_path_outside:
  "inside_backup b x = False \<Longrightarrow> snd (sync_path w b io fs p) x = fs x"
  using sync_path_writes [of w b io fs p x] destination_inside [of w b p x] by auto

lemma sync_path_other:
  "p \<noteq> w @ rel \<Longrightarrow> snd (sync_path w b io fs p) (b @ rel) = fs (b @ rel)"
  using sync_path_writes [of w b io fs p "b @ rel"] by (auto dest!: destination_Some)

lemma sync_path_absent:
  "fs p = None \<Longrightarrow> sync_path w b io fs p = ((p, SkippedIgnored), fs)"
  by (simp add: sync_path_def)

lemma sync_batch_not_in_batch:
  "w @ rel \<notin> set batch \<Longrightarrow> snd (sync_batch w b io fs batch) (b @ rel) = fs (b @ rel)"
  by (induction batch arbitrary: fs) (auto simp: split_beta sync_path_other)

lemma sync_batch_outside:
  "inside_backup b x = False \<Longrightarrow> snd (sync_batch w b io fs batch) x = fs x"
  by (induction batch arbitrary: fs) (auto simp: split_beta sync_path_outside)

lemma sync_batch_absent_source:
  "fs (w @ rel) = None \<Longrightarrow> inside_backup b (w @ rel) = False \<Longrightarrow>
   snd (sync_batch w b io fs batch) (b @ rel) = fs (b @ rel)"
proof (induction batch arbitrary: fs)
  case Nil
  then show ?case by simp
next
  case (Cons p ps)
  let ?fs = "snd (sync_path w b io fs p)"
  have src: "?fs (w @ rel) = None"
    using Cons.prems by (simp add: sync_path_outside)
  have dst: "?fs (b @ rel) = fs (b @ rel)"
  proof (cases "p = w @ rel")
    case True
    then show ?thesis using Cons.prems by (simp add: sync_path_absent)
  next
    case False
    then show ?thesis by (simp add: sync_path_other)
  qed
  show ?case
    using Cons.IH [of ?fs] src Cons.prems(2) dst by (simp add: split_beta)
qed

subsection \<open>Safety\<close>

text \<open>
  On a batch that passed rule 3 of the filter, the engine leaves alone every destination whose
  source is absent.
\<close>

lemma sync_engine_keeps_backup_only_file:
  assumes "\<forall>p \<in> set batch. inside_backup backup p = False"
    and "fs (watch @ rel) = None"
  shows "snd (sync_engine watch backup reachable io fs batch) (backup @ rel) = fs (backup @ rel)"
proof -
  have "snd (sync_batch watch backup io fs batch) (backup @ rel) = fs (backup @ rel)"
  proof (cases "watch @ rel \<in> set batch")
    case True
    then have "inside_backup backup (watch @ rel) = False" using assms(1) by blast
    then show ?thesis using assms(2) by (rule sync_batch_absent_source [rotated])
  next
    case False
    then show ?thesis by (rule sync_batch_not_in_batch)
  qed
  then show ?thesis
    by (simp add: sync_engine_def split_beta)
qed

text \<open>
  Rule 3 is what the engine relies on when one target lies inside the other. With the backup
  target at the root and the watch target \<open>w\<close> under it, an unfiltered batch makes the engine
  copy \<open>w/w/x\<close> to \<open>w/x\<close> and then \<open>w/x\<close> over the file \<open>x\<close> of the backup, which had no source
  when the run began.
\<close>

lemma unfiltered_batch_overwrites:
  "[[''w'', ''w'', ''x''] \<mapsto> \<lparr>content = ''new'', mtime = 9\<rparr>,
    [''x''] \<mapsto> \<lparr>content = ''old'', mtime = 1\<rparr>] ([''w''] @ [''x'']) = None \<and>
   snd (sync_engine [''w''] [] True no_failure
     [[''w'', ''w'', ''x''] \<mapsto> \<lparr>content = ''new'', mtime = 9\<rparr>,
      [''x''] \<mapsto> \<lparr>content = ''old'', mtime = 1\<rparr>]
     [[''w'', ''w'', ''x''], [''w'', ''x'']]) ([] @ [''x'']) =
     Some \<lparr>content = ''new'', mtime = 9\<rparr>"
  by (simp add: sync_engine_def sync_path_def destination_def relative_def needs_copy_def
      no_failure_def)

text \<open>
  Claim C1. A file under the backup target whose counterpart under the watch target is absent
  is neither removed nor modified when a ChangeBatch is processed, whatever the batch and
  whether or not copies fail or the batch is deferred: after the run the file system holds at
  that destination what it held before. This holds for any ChangeBatch that the Session
  Controller filters and hands to the engine, and for the engine on any batch that passed rule
  3 of the filter. For a path whose source no longer exists the engine reports
  \<open>SkippedIgnored\<close> and leaves the file system as it is.
\<close>

theorem backup_only_files_untouched:
  assumes "fs (watch @ rel) = None"
  shows "snd (on_change_batch other_rules watch backup reachable io fs batch) (backup @ rel) =
           fs (backup @ rel) \<and>
         ((\<forall>p \<in> set batch. inside_backup backup p = False) \<longrightarrow>
            snd (sync_engine watch backup reachable io fs batch) (backup @ rel) =
              fs (backup @ rel)) \<and>
         sync_path watch backup io fs (watch @ rel) = ((watch @ rel, SkippedIgnored), fs)"
proof -
  let ?kept = "filter (\<lambda>p. should_ignore other_rules backup p = False) batch"
  have "\<forall>p \<in> set ?kept. inside_backup backup p = False"
    by (simp add: should_ignore_def)
  then have "snd (sync_engine watch backup reachable io fs ?kept) (backup @ rel) =
             fs (backup @ rel)"
    using assms by (rule sync_engine_keeps_backup_only_file)
  then show ?thesis
    using assms
    by (simp add: on_change_batch_def sync_engine_keeps_backup_only_file sync_path_absent)
qed

text \<open>
  A backup that holds \<open>old.txt\<close>, which the watched tree no longer has: a run over a batch
  that names both trees copies \<open>a.txt\<close> and keeps \<open>old.txt\<close>.
\<close>

theorem backup_only_files_untouched_witness:
  "[[''watch'', ''a.txt''] \<mapsto> \<lparr>content = ''hello'', mtime = 7\<rparr>,
    [''backup'', ''old.txt''] \<mapsto> \<lparr>content = ''kept'', mtime = 3\<rparr>]
     ([''watch''] @ [''old.txt'']) = None \<and>
   snd (on_change_batch no_other_rule [''watch''] [''backup''] True no_failure
     [[''watch'', ''a.txt''] \<mapsto> \<lparr>content = ''hello'', mtime = 7\<rparr>,
      [''backup'', ''old.txt''] \<mapsto> \<lparr>content = ''kept'', mtime = 3\<rparr>]
     [[''watch'', ''a.txt''], [''watch'', ''old.txt''], [''backup'', ''old.txt'']])
     [''backup'', ''old.txt''] = Some \<lparr>content = ''kept'', mtime = 3\<rparr> \<and>
   snd (on_change_batch no_other_rule [''watch''] [''backup''] True no_failure
     [[''watch'', ''a.txt''] \<mapsto> \<lparr>content = ''hello'', mtime = 7\<rparr>,
      [''backup'', ''old.txt''] \<mapsto> \<lparr>content = ''kept'', mtime = 3\<rparr>]
     [[''watch'', ''a.txt''], [''watch'', ''old.txt''], [''backup'', ''old.txt'']])
     [''backup'', ''a.txt''] = Some \<lparr>content = ''hello'', mtime = 7\<rparr>"
proof -
  let ?fs = "[[''watch'', ''a.txt''] \<mapsto> \<lparr>content = ''hello'', mtime = 7\<rparr>,
              [''backup'', ''old.txt''] \<mapsto> \<lparr>content = ''kept'', mtime = 3\<rparr>]"
  let ?batch = "[[''watch'', ''a.txt''], [''watch'', ''old.txt''], [''backup'', ''old.txt'']]"
  have h: "?fs ([''watch''] @ [''old.txt'']) = None"
    by simp
  have "snd (on_change_batch no_other_rule [''watch''] [''backup''] True no_failure ?fs ?batch)
          ([''backup''] @ [''old.txt'']) = ?fs ([''backup''] @ [''old.txt''])"
    using backup_only_files_untouched [where fs = ?fs and watch = "[''watch'']"
        and rel = "[''old.txt'']" and other_rules = no_other_rule and backup = "[''backup'']"
        and reachable = True and io = no_failure and batch = ?batch] h
    by blast
  moreover have "snd (on_change_batch no_other_rule [''watch''] [''backup''] True no_failure
      ?fs ?batch) [''backup'', ''a.txt''] = Some \<lparr>content = ''hello'', mtime = 7\<rparr>"
    by (simp add: on_change_batch_def should_ignore_def no_other_rule_def inside_backup_def
        sync_engine_def sync_path_def destination_def relative_def needs_copy_def no_failure_def)
  ultimately show ?thesis
    using h by simp
qed

subsection \<open>Idempotence\<close>

lemma sync_path_in_sync:
  "in_sync w b fs p \<Longrightarrow> sync_path w b io fs p = ((p, SkippedUnchanged), fs)"
  by (auto simp: in_sync_def sync_path_def split: option.splits)

lemma sync_path_establishes:
  assumes "sync_path w b io fs p = ((q, st), fs')" and "st = Copied \<or> st = SkippedUnchanged"
  shows "q = p \<and> in_sync w b fs' p"
  using assms
  by (auto simp: in_sync_def sync_path_def needs_copy_def split: option.splits if_splits)

lemma sync_path_preserves:
  assumes "in_sync w b fs p" and "inside_backup b p = False"
  shows "in_sync w b (snd (sync_path w b io fs q)) p"
proof (cases "q = p")
  case True
  then show ?thesis using assms(1) by (simp add: sync_path_in_sync)
next
  case False
  obtain src d where p: "fs p = Some src" "destination w b p = Some d" "needs_copy src (fs d) = False"
    using assms(1) by (auto simp: in_sync_def split: option.splits)
  have "snd (sync_path w b io fs q) p = fs p"
    using assms(2) by (rule sync_path_outside)
  moreover have "snd (sync_path w b io fs q) d = fs d"
    using sync_path_writes [of w b io fs q d] destination_inj [OF p(2), of q] False by auto
  ultimately show ?thesis using p by (simp add: in_sync_def)
qed

lemma sync_batch_preserves:
  "in_sync w b fs p \<Longrightarrow> inside_backup b p = False \<Longrightarrow>
   in_sync w b (snd (sync_batch w b io fs qs)) p"
  by (induction qs arbitrary: fs) (auto simp: split_beta sync_path_preserves)

lemma sync_batch_establishes:
  "(p, st) \<in> set (fst (sync_batch w b io fs batch)) \<Longrightarrow> st = Copied \<or> st = SkippedUnchanged \<Longrightarrow>
   inside_backup b p = False \<Longrightarrow> in_sync w b (snd (sync_batch w b io fs batch)) p"
proof (induction batch arbitrary: fs)
  case Nil
  then show ?case by simp
next
  case (Cons q qs)
  obtain out fs' where sp: "sync_path w b io fs q = (out, fs')" by (cases "sync_path w b io fs q")
  show ?case
  proof (cases "out = (p, st)")
    case True
    then have "in_sync w b fs' p"
      using sync_path_establishes [of w b io fs q p st fs'] sp Cons.prems(2) by simp
    then show ?thesis
      using sp Cons.prems(3) sync_batch_preserves [of w b fs' p io qs] by (simp add: split_beta)
  next
    case False
    then have "(p, st) \<in> set (fst (sync_batch w b io fs' qs))"
      using Cons.prems(1) sp by (simp add: split_beta)
    then show ?thesis
      using Cons.IH [of fs'] Cons.prems(2,3) sp by (simp add: split_beta)
  qed
qed

lemma sync_path_fst: "fst (fst (sync_path w b io fs q)) = q"
  by (auto simp: sync_path_def split: option.splits)

lemma sync_batch_skips:
  "in_sync w b fs p \<Longrightarrow> inside_backup b p = False \<Longrightarrow>
   (p, st) \<in> set (fst (sync_batch w b io fs batch)) \<Longrightarrow> st = SkippedUnchanged"
proof (induction batch arbitrary: fs)
  case Nil
  then show ?case by simp
next
  case (Cons q qs)
  obtain out fs' where sp: "sync_path w b io fs q = (out, fs')" by (cases "sync_path w b io fs q")
  have keep: "in_sync w b fs' p"
    using sync_path_preserves [OF Cons.prems(1,2), of io q] sp by simp
  show ?case
  proof (cases "out = (p, st)")
    case True
    then have "q = p" using sync_path_fst [of w b io fs q] sp by simp
    then show ?thesis using sync_path_in_sync [OF Cons.prems(1), of io] sp True by simp
  next
    case False
    then have "(p, st) \<in> set (fst (sync_batch w b io fs' qs))"
      using Cons.prems(3) sp by (simp add: split_beta)
    then show ?thesis using Cons.IH [OF keep Cons.prems(2)] by simp
  qed
qed

lemma sync_batch_paths: "map fst (fst (sync_batch w b io fs batch)) = batch"
  by (induction batch arbitrary: fs) (auto simp: split_beta sync_path_fst)

lemma sync_batch_all_in_sync:
  "\<forall>p \<in> set batch. in_sync w b fs p \<Longrightarrow>
   sync_batch w b io fs batch = (map (\<lambda>p. (p, SkippedUnchanged)) batch, fs)"
  by (induction batch) (auto simp: sync_path_in_sync)

text \<open>
  When the first run reports no failure and no missing source, the second run over the same
  batch reports \<open>SkippedUnchanged\<close> for every path and writes nothing.
\<close>

lemma clean_first_run_second_run_idle:
  assumes "\<forall>p \<in> set batch. inside_backup b p = False"
    and "\<forall>out \<in> set (fst (sync_batch w b io1 fs batch)).
           snd out = Copied \<or> snd out = SkippedUnchanged"
  shows "sync_batch w b io2 (snd (sync_batch w b io1 fs batch)) batch =
           (map (\<lambda>p. (p, SkippedUnchanged)) batch, snd (sync_batch w b io1 fs batch))"
proof (rule sync_batch_all_in_sync, rule ballI)
  fix p assume p: "p \<in> set batch"
  then have "p \<in> fst ` set (fst (sync_batch w b io1 fs batch))"
    using sync_batch_paths [of w b io1 fs batch] by (metis set_map)
  then obtain st where st: "(p, st) \<in> set (fst (sync_batch w b io1 fs batch))"
    by auto
  then have "st = Copied \<or> st = SkippedUnchanged" using assms(2) by auto
  with st show "in_sync w b (snd (sync_batch w b io1 fs batch)) p"
    using assms(1) p by (simp add: sync_batch_establishes)
qed

text \<open>The engine reports on the paths of its batch, in their order.\<close>

lemma sync_engine_reports_batch:
  "(p, st) \<in> set (outcomes_of (fst (sync_engine w b reachable io fs batch))) \<Longrightarrow> p \<in> set batch"
proof -
  assume a: "(p, st) \<in> set (outcomes_of (fst (sync_engine w b reachable io fs batch)))"
  then have "(p, st) \<in> set (fst (sync_batch w b io fs batch))"
    by (auto simp: sync_engine_def split_beta split: if_splits)
  then have "p \<in> set (map fst (fst (sync_batch w b io fs batch)))"
    by force
  then show ?thesis by (simp add: sync_batch_paths)
qed

lemma sync_engine_second_run_skips:
  assumes "inside_backup backup p = False"
    and "(p, st1) \<in> set (outcomes_of (fst (sync_engine watch backup reachable1 io1 fs batch1)))"
    and "st1 = Copied \<or> st1 = SkippedUnchanged"
    and "(p, st2) \<in> set (outcomes_of (fst (sync_engine watch backup reachable2 io2
            (snd (sync_engine watch backup reachable1 io1 fs batch1)) batch2)))"
  shows "st2 = SkippedUnchanged"
proof -
  let ?fs1 = "snd (sync_batch watch backup io1 fs batch1)"
  have r1: "reachable1" "(p, st1) \<in> set (fst (sync_batch watch backup io1 fs batch1))"
    using assms(2) by (auto simp: sync_engine_def split_beta split: if_splits)
  then have fs1: "snd (sync_engine watch backup reachable1 io1 fs batch1) = ?fs1"
    by (simp add: sync_engine_def split_beta)
  have r2: "(p, st2) \<in> set (fst (sync_batch watch backup io2 ?fs1 batch2))"
    using assms(4) unfolding fs1 by (auto simp: sync_engine_def split_beta split: if_splits)
  have "in_sync watch backup ?fs1 p"
    using r1(2) assms(3,1) by (rule sync_batch_establishes)
  then show ?thesis
    using assms(1) r2 by (rule sync_batch_skips)
qed

text \<open>
  Claim C7, as the engine has it. On a source tree unchanged since the previous run, the
  second run produces \<open>SkippedUnchanged\<close>, and nothing else, for every file of its batch that
  the previous run reported as \<open>Copied\<close> or \<open>SkippedUnchanged\<close>, whatever else the two
  batches hold and whichever copies fail. The second run takes place (the backup target is
  reachable) and its filter lets the file through.
\<close>

theorem second_run_skips_synced_files:
  assumes "(p, stA) \<in> set (outcomes_of (fst
             (on_change_batch rulesA watch backup reachableA ioA fs batchA)))"
    and "stA = Copied \<or> stA = SkippedUnchanged"
    and "p \<in> set batchB"
    and "rulesB p = False"
    and "reachableB"
  shows "snd ` {out \<in> set (outcomes_of (fst
             (on_change_batch rulesB watch backup reachableB ioB
                (snd (on_change_batch rulesA watch backup reachableA ioA fs batchA)) batchB))).
               fst out = p} = {SkippedUnchanged}"
proof -
  let ?fsA = "snd (on_change_batch rulesA watch backup reachableA ioA fs batchA)"
  let ?kept = "filter (\<lambda>p. should_ignore rulesB backup p = False) batchB"
  let ?outs = "outcomes_of (fst (on_change_batch rulesB watch backup reachableB ioB ?fsA batchB))"
  have "p \<in> set (filter (\<lambda>p. should_ignore rulesA backup p = False) batchA)"
    using assms(1) unfolding on_change_batch_def by (rule sync_engine_reports_batch)
  then have out: "inside_backup backup p = False"
    by (simp add: should_ignore_def)
  have skipped: "st = SkippedUnchanged" if "(p, st) \<in> set ?outs" for st
    using out assms(1,2) that unfolding on_change_batch_def
    by (rule sync_engine_second_run_skips)
  have "?outs = fst (sync_batch watch backup ioB ?fsA ?kept)"
    using assms(5) by (simp add: on_change_batch_def sync_engine_def split_beta)
  then have "map fst ?outs = ?kept"
    by (simp add: sync_batch_paths)
  moreover have "p \<in> set ?kept"
    using assms(3,4) out by (simp add: should_ignore_def)
  ultimately have "p \<in> fst ` set ?outs"
    by (metis set_map)
  then obtain st where "(p, st) \<in> set ?outs"
    by auto
  then have present: "(p, SkippedUnchanged) \<in> set ?outs"
    using skipped by blast
  show ?thesis
  proof (rule equalityI)
    show "snd ` {out \<in> set ?outs. fst out = p} \<subseteq> {SkippedUnchanged}"
      using skipped by auto
    show "{SkippedUnchanged} \<subseteq> snd ` {out \<in> set ?outs. fst out = p}"
      using present by force
  qed
qed

text \<open>A first run that copies \<open>a.txt\<close>, and a second one that skips it, on a full disk.\<close>

theorem second_run_skips_synced_files_witness:
  "outcomes_of (fst (on_change_batch no_other_rule [''watch''] [''backup''] True no_failure
         [[''watch'', ''a.txt''] \<mapsto> \<lparr>content = ''hello'', mtime = 7\<rparr>]
         [[''watch'', ''a.txt'']])) = [([''watch'', ''a.txt''], Copied)] \<and>
   no_other_rule [''watch'', ''a.txt''] = False \<and>
   snd ` {out \<in> set (outcomes_of (fst
       (on_change_batch no_other_rule [''watch''] [''backup''] True disk_full
         (snd (on_change_batch no_other_rule [''watch''] [''backup''] True no_failure
                [[''watch'', ''a.txt''] \<mapsto> \<lparr>content = ''hello'', mtime = 7\<rparr>]
                [[''watch'', ''a.txt'']]))
         [[''watch'', ''a.txt'']]))). fst out = [''watch'', ''a.txt'']} = {SkippedUnchanged}"
proof -
  let ?fs = "[[''watch'', ''a.txt''] \<mapsto> \<lparr>content = ''hello'', mtime = 7\<rparr>]"
  let ?p = "[''watch'', ''a.txt'']"
  have h1: "outcomes_of (fst (on_change_batch no_other_rule [''watch''] [''backup''] True
              no_failure ?fs [?p])) = [(?p, Copied)]"
    by (simp add: on_change_batch_def should_ignore_def no_other_rule_def
        inside_backup_def sync_engine_def sync_path_def destination_def relative_def
        needs_copy_def no_failure_def)
  then have h2: "(?p, Copied) \<in> set (outcomes_of (fst (on_change_batch no_other_rule
              [''watch''] [''backup''] True no_failure ?fs [?p])))"
    by simp
  have h3: "no_other_rule ?p = False"
    by (simp add: no_other_rule_def)
  have h4: "?p \<in> set [?p]"
    by simp
  have "snd ` {out \<in> set (outcomes_of (fst
       (on_change_batch no_other_rule [''watch''] [''backup''] True disk_full
         (snd (on_change_batch no_other_rule [''watch''] [''backup''] True no_failure ?fs [?p]))
         [?p]))). fst out = ?p} = {SkippedUnchanged}"
    using h2 _ h4 h3 TrueI by (rule second_run_skips_synced_files) simp
  then show ?thesis
    using h1 h3 by simp
qed

text \<open>
  Claim C7 as stated, for every file, fails: a file whose copy failed in the first run (step 5)
  is not in the backup, and the second run, on the unchanged tree, reports \<open>Copied\<close> for it.
\<close>

theorem failed_copy_is_retried:
  "outcomes_of (fst (on_change_batch no_other_rule [''watch''] [''backup''] True disk_full
         [[''watch'', ''a.txt''] \<mapsto> \<lparr>content = ''hello'', mtime = 7\<rparr>]
         [[''watch'', ''a.txt'']])) =
     [([''watch'', ''a.txt''], Failed ''disk full'')] \<and>
   outcomes_of (fst (on_change_batch no_other_rule [''watch''] [''backup''] True no_failure
         (snd (on_change_batch no_other_rule [''watch''] [''backup''] True disk_full
                [[''watch'', ''a.txt''] \<mapsto> \<lparr>content = ''hello'', mtime = 7\<rparr>]
                [[''watch'', ''a.txt'']]))
         [[''watch'', ''a.txt'']])) =
     [([''watch'', ''a.txt''], Copied)] \<and>
   outcomes_of (fst (sync_engine [''watch''] [''backup''] True no_failure
         (snd (sync_engine [''watch''] [''backup''] True disk_full
                [[''watch'', ''a.txt''] \<mapsto> \<lparr>content = ''hello'', mtime = 7\<rparr>]
                [[''watch'', ''a.txt'']]))
         [[''watch'', ''a.txt'']])) =
     [([''watch'', ''a.txt''], Copied)]"
  by (simp add: on_change_batch_def should_ignore_def no_other_rule_def inside_backup_def
      sync_engine_def sync_path_def destination_def relative_def needs_copy_def
      disk_full_def no_failure_def)

end
